theory Spec2Isabelle
  imports
    Complex_Main
    "HOL-Library.Sublist"
    "HOL-Library.Char_ord"
    "HOL-Library.List_Lexorder"
    "HOL-Library.Product_Lexorder"
    "HOL-Library.Word"
begin

section \<open>FindDupes: paths, strings and Python errors\<close>

text \<open>
  The development embeds the duplicate finder of \<^verbatim>\<open>duplicate_file_finder.py\<close> (the
  cache-less variant that verifies byte by byte), the cached variant of
  \<^verbatim>\<open>duplicate_finder.py\<close> (64-bit fingerprints, scan cache, folder analysis) and the
  cleaner of \<^verbatim>\<open>duplicate_file_cleaner.py\<close>.

  A \<^verbatim>\<open>pathlib.Path\<close> of a POSIX system is modelled by its \<^verbatim>\<open>parts\<close>: the list of its
  components, an absolute path starting with the component \<^verbatim>\<open>/\<close>. A component is the
  byte string the file system stores, the UTF-8 encoding of the name. Python compares
  two paths by their components, component by component, each component as a string;
  this is the lexicographic order on \<open>string list\<close>, and a tuple \<^verbatim>\<open>(score, path)\<close> is
  compared first by score, then by path. Where the code looks into a name (the regular
  expressions of the score), the name is decoded to its code points first.
\<close>

type_synonym path = "string list"
type_synonym bytes = "8 word list"

datatype py_error = ValueError | NameError | KeyError | IndexError | TypeError | JSONDecodeError

text \<open>The first component of an absolute path is its root, \<^verbatim>\<open>/\<close> or \<^verbatim>\<open>//\<close>.\<close>

definition is_anchor :: "string \<Rightarrow> bool" where
  "is_anchor a = (a = ''/'' \<or> a = ''//'')"

text \<open>\<^verbatim>\<open>Path.name\<close>: the last component, empty for \<^verbatim>\<open>.\<close> and for a root.\<close>

definition path_name :: "path \<Rightarrow> string" where
  "path_name p =
     (case p of
        [] \<Rightarrow> []
      | [a] \<Rightarrow> if is_anchor a then [] else a
      | _ \<Rightarrow> last p)"

text \<open>\<^verbatim>\<open>Path.parent\<close>: the path without its last component; \<^verbatim>\<open>.\<close> and a root are their own parent.\<close>

definition path_parent :: "path \<Rightarrow> path" where
  "path_parent p =
     (case p of
        [] \<Rightarrow> []
      | [a] \<Rightarrow> if is_anchor a then [a] else []
      | _ \<Rightarrow> butlast p)"

fun join_sep :: "string list \<Rightarrow> string" where
  "join_sep [] = []"
| "join_sep [x] = x"
| "join_sep (x # y # zs) = x @ ''/'' @ join_sep (y # zs)"

text \<open>\<^verbatim>\<open>str(path)\<close>.\<close>

definition path_str :: "path \<Rightarrow> string" where
  "path_str p =
     (case p of
        [] \<Rightarrow> ''.''
      | a # rest \<Rightarrow> if is_anchor a then a @ join_sep rest else join_sep (a # rest))"

text \<open>
  \<^verbatim>\<open>path.relative_to(root)\<close> raises \<^verbatim>\<open>ValueError\<close> when the path is not under the root.
  The empty root is \<^verbatim>\<open>Path(".")\<close>: only a relative path lies under it.
\<close>

definition is_absolute :: "path \<Rightarrow> bool" where
  "is_absolute p = (case p of [] \<Rightarrow> False | a # _ \<Rightarrow> is_anchor a)"

definition relative_to :: "path \<Rightarrow> path \<Rightarrow> py_error + path" where
  "relative_to p root_dir =
     (if root_dir = [] then (if is_absolute p then Inl ValueError else Inr p)
      else if prefix root_dir p then Inr (drop (length root_dir) p)
      else Inl ValueError)"

subsection \<open>Names as Python strings\<close>

text \<open>
  A Python string is a sequence of code points. \<open>ustr\<close> reads an ASCII literal as one.
  \<open>utf8_decode\<close> is the decoding of a file name (\<^verbatim>\<open>os.fsdecode\<close>): a well-formed UTF-8
  sequence gives its code point (no overlong form, no surrogate, nothing above
  \<^verbatim>\<open>U+10FFFF\<close>), and a byte that starts none is escaped to the lone surrogate
  \<^verbatim>\<open>U+DC00\<close> plus the byte (\<^verbatim>\<open>surrogateescape\<close>).
\<close>

definition ustr :: "string \<Rightarrow> int list" where
  "ustr s = map of_char s"

definition is_cont :: "char \<Rightarrow> bool" where
  "is_cont c = (128 \<le> (of_char c :: int) \<and> (of_char c :: int) < 192)"

definition cont_bits :: "char \<Rightarrow> int" where
  "cont_bits c = of_char c - 128"

definition escape_byte :: "int \<Rightarrow> int" where
  "escape_byte b = 56320 + b"

definition code_point2 :: "int \<Rightarrow> char \<Rightarrow> int" where
  "code_point2 b c1 = (b - 192) * 64 + cont_bits c1"

definition code_point3 :: "int \<Rightarrow> char \<Rightarrow> char \<Rightarrow> int" where
  "code_point3 b c1 c2 = (b - 224) * 4096 + cont_bits c1 * 64 + cont_bits c2"

definition code_point4 :: "int \<Rightarrow> char \<Rightarrow> char \<Rightarrow> char \<Rightarrow> int" where
  "code_point4 b c1 c2 c3 =
     (b - 240) * 262144 + cont_bits c1 * 4096 + cont_bits c2 * 64 + cont_bits c3"

text \<open>
  One step of the decoder at the byte \<open>c\<close> followed by \<open>cs\<close>: the code point read and the
  number of bytes it takes.
\<close>

definition utf8_step :: "char \<Rightarrow> string \<Rightarrow> int \<times> nat" where
  "utf8_step c cs =
     (let b = of_char c in
      if b < 128 then (b, 1)
      else if 194 \<le> b \<and> b \<le> 223 then
        (case cs of
           c1 # r1 \<Rightarrow> if is_cont c1 then (code_point2 b c1, 2) else (escape_byte b, 1)
         | [] \<Rightarrow> (escape_byte b, 1))
      else if 224 \<le> b \<and> b \<le> 239 then
        (case cs of
           c1 # c2 # r2 \<Rightarrow>
             if is_cont c1 \<and> is_cont c2 \<and> 2048 \<le> code_point3 b c1 c2 \<and>
                \<not> (55296 \<le> code_point3 b c1 c2 \<and> code_point3 b c1 c2 \<le> 57343)
             then (code_point3 b c1 c2, 3)
             else (escape_byte b, 1)
         | _ \<Rightarrow> (escape_byte b, 1))
      else if 240 \<le> b \<and> b \<le> 244 then
        (case cs of
           c1 # c2 # c3 # r3 \<Rightarrow>
             if is_cont c1 \<and> is_cont c2 \<and> is_cont c3 \<and> 65536 \<le> code_point4 b c1 c2 c3 \<and>
                code_point4 b c1 c2 c3 \<le> 1114111
             then (code_point4 b c1 c2 c3, 4)
             else (escape_byte b, 1)
         | _ \<Rightarrow> (escape_byte b, 1))
      else (escape_byte b, 1))"

fun utf8_decode :: "string \<Rightarrow> int list" where
  "utf8_decode [] = []"
| "utf8_decode (c # cs) =
     fst (utf8_step c cs) # utf8_decode (drop (snd (utf8_step c cs) - 1) cs)"

text \<open>
  \<^verbatim>\<open>str.lower\<close>, on the letters A to Z. Beyond ASCII the code points are left as they
  are: none of them lower-cases into a character that either pattern of the score can
  match, and no decimal digit has a case.
\<close>

definition str_lower :: "int list \<Rightarrow> int list" where
  "str_lower s = map (\<lambda>c. if 65 \<le> c \<and> c \<le> 90 then c + 32 else c) s"

text \<open>
  The class \<^verbatim>\<open>\d\<close> of a \<^verbatim>\<open>str\<close> pattern: the decimal digits of Unicode (general category Nd).
  They come in runs of ten, from a zero to its nine; the table lists the zeros, as of
  Unicode 14.0, the version of Python 3.11.
\<close>

definition decimal_zeros :: "int list" where
  "decimal_zeros =
     [48, 1632, 1776, 1984, 2406, 2534, 2662, 2790, 2918, 3046, 3174, 3302, 3430, 3558,
      3664, 3792, 3872, 4160, 4240, 6112, 6160, 6470, 6608, 6784, 6800, 6992, 7088, 7232,
      7248, 42528, 43216, 43264, 43472, 43504, 43600, 44016, 65296, 66720, 68912, 69734,
      69872, 69942, 70096, 70384, 70736, 70864, 71248, 71360, 71472, 71904, 72016, 72784,
      73040, 73120, 92768, 92864, 93008, 120782, 120792, 120802, 120812, 120822, 123200,
      123632, 125264, 130032]"

definition is_digit :: "int \<Rightarrow> bool" where
  "is_digit c = (\<exists>z \<in> set decimal_zeros. z \<le> c \<and> c < z + 10)"

text \<open>\<^verbatim>\<open>xs.index(x)\<close>: the first position of \<open>x\<close>, \<^verbatim>\<open>ValueError\<close> when there is none.\<close>

fun list_index :: "'a list \<Rightarrow> 'a \<Rightarrow> py_error + nat" where
  "list_index [] x = Inl ValueError"
| "list_index (y # ys) x =
     (if y = x then Inr 0
      else (case list_index ys x of Inl e \<Rightarrow> Inl e | Inr i \<Rightarrow> Inr (Suc i)))"

text \<open>\<^verbatim>\<open>xs[i]\<close> for a Python integer: a negative index counts from the end.\<close>

definition py_nth :: "'a list \<Rightarrow> int \<Rightarrow> py_error + 'a" where
  "py_nth xs i =
     (if 0 \<le> i \<and> i < int (length xs) then Inr (xs ! nat i)
      else if i < 0 \<and> - int (length xs) \<le> i then Inr (xs ! nat (int (length xs) + i))
      else Inl IndexError)"

section \<open>Keeper selection (\<^verbatim>\<open>duplicate_file_finder.py\<close>)\<close>

text \<open>
  \<^verbatim>\<open>re.search(r"\(copy\)|[-_ ]copy", filename)\<close>: somewhere in the name stands
  \<^verbatim>\<open>(copy)\<close>, or \<^verbatim>\<open>copy\<close> right after a hyphen, an underscore or a space.
\<close>

fun re_search_copy :: "int list \<Rightarrow> bool" where
  "re_search_copy [] = False"
| "re_search_copy (c # cs) =
     (prefix (ustr ''(copy)'') (c # cs) \<or>
      (c \<in> set (ustr ''-_ '') \<and> prefix (ustr ''copy'') cs) \<or>
      re_search_copy cs)"

text \<open>
  \<^verbatim>\<open>re.search(r"\(\d+\)", filename)\<close>: an opening parenthesis, one or more decimal
  digits, a closing parenthesis. After the longest run of digits no shorter run can be followed
  by the parenthesis, so the greedy match decides.
\<close>

fun re_search_paren_digits :: "int list \<Rightarrow> bool" where
  "re_search_paren_digits [] = False"
| "re_search_paren_digits (c # cs) =
     ((c = of_char CHR ''('' \<and> takeWhile is_digit cs \<noteq> [] \<and>
        (case dropWhile is_digit cs of [] \<Rightarrow> False | d # _ \<Rightarrow> d = of_char CHR '')''))
      \<or> re_search_paren_digits cs)"

text \<open>\<^verbatim>\<open>file_path.name.lower()\<close> is the decoded name, lower-cased.\<close>

definition get_filename_score :: "path \<Rightarrow> int" where
  "get_filename_score file_path =
     (let filename = str_lower (utf8_decode (path_name file_path));
          score0 = 0;
          score1 = (if re_search_copy filename then score0 + 10 else score0);
          score2 = (if re_search_paren_digits filename then score1 + 5 else score1)
      in score2 + (int (length file_path) - 1))"

definition guess_keeper :: "path list \<Rightarrow> py_error + nat" where
  "guess_keeper grp =
     (if grp = [] then Inr 0
      else
        (case sort (map (\<lambda>p. (get_filename_score p, p)) grp) of
           [] \<Rightarrow> Inl IndexError
         | best # _ \<Rightarrow>
             (case list_index grp (snd best) of
                Inl e \<Rightarrow> Inl e
              | Inr i \<Rightarrow> Inr (i + 1))))"


subsection \<open>The score, said without the scanning functions\<close>

text \<open>
  What the two searches of \<open>get_filename_score\<close> decide, as properties of the name:
  the name holds \<^verbatim>\<open>(copy)\<close>, or \<^verbatim>\<open>copy\<close> right after one of the three separators; the
  name holds a parenthesised, non-empty run of digits.
\<close>

definition copy_indicator :: "int list \<Rightarrow> bool" where
  "copy_indicator s =
     ((\<exists>pre post. s = pre @ ustr ''(copy)'' @ post) \<or>
      (\<exists>pre c post. c \<in> set (ustr ''-_ '') \<and> s = pre @ c # ustr ''copy'' @ post))"

definition paren_number :: "int list \<Rightarrow> bool" where
  "paren_number s =
     (\<exists>pre ds post. ds \<noteq> [] \<and> (\<forall>d \<in> set ds. is_digit d) \<and>
        s = pre @ ustr ''('' @ ds @ ustr '')'' @ post)"

text \<open>
  The score as the specification words it: a fixed penalty when the file name contains a
  copy-indicator token, the tokens being \<^verbatim>\<open>copy\<close>, \<^verbatim>\<open>(copy)\<close> and a trailing \<^verbatim>\<open>_copy\<close> (each
  of them contains \<^verbatim>\<open>copy\<close>), a smaller one for a parenthesised number, and the depth.
\<close>

fun contains :: "'a list \<Rightarrow> 'a list \<Rightarrow> bool" where
  "contains sub [] = (sub = [])"
| "contains sub (c # cs) = (prefix sub (c # cs) \<or> contains sub cs)"

definition Spec_Score :: "int \<Rightarrow> int \<Rightarrow> path \<Rightarrow> int" where
  "Spec_Score copy_penalty number_penalty file_path =
     (if contains (ustr ''copy'') (str_lower (utf8_decode (path_name file_path)))
      then copy_penalty else 0) +
     (if re_search_paren_digits (str_lower (utf8_decode (path_name file_path)))
      then number_penalty else 0) +
     (int (length file_path) - 1)"

section \<open>The JSON report (\<^verbatim>\<open>duplicate_file_finder.py\<close>)\<close>

text \<open>
  One entry of \<^verbatim>\<open>files_to_process\<close>: a duplicate group with its size, the relative paths
  of its files and the 0-based \<^verbatim>\<open>keep_index\<close>, or a unique file with its size and
  relative path.
\<close>

datatype report_item =
    Duplicate_group nat "string list" int
  | Unique_file nat string

text \<open>
  The report: the entries and the summary (number of files to keep and their total
  size in bytes; the gigabyte figure, a formatted float, is left out).
\<close>

record json_report =
  files_to_process :: "report_item list"
  total_files_to_keep :: nat
  total_size_to_keep_bytes :: nat

text \<open>
  \<^verbatim>\<open>{f_path: group for group in confirmed_duplicates for f_path in group}\<close>: a later
  group overrides an earlier one. The group is stored with its position in
  \<^verbatim>\<open>confirmed_duplicates\<close>, which stands for \<^verbatim>\<open>id(group)\<close>.
\<close>

definition file_to_group_map :: "path list list \<Rightarrow> (path \<rightharpoonup> nat \<times> path list)" where
  "file_to_group_map confirmed_duplicates =
     fold (\<lambda>(i, grp) m. fold (\<lambda>f_path m'. m'(f_path \<mapsto> (i, grp))) grp m)
       (enumerate 0 confirmed_duplicates) Map.empty"

fun relative_strs :: "path list \<Rightarrow> path \<Rightarrow> py_error + string list" where
  "relative_strs [] root_dir = Inr []"
| "relative_strs (p # ps) root_dir =
     (case relative_to p root_dir of
        Inl e \<Rightarrow> Inl e
      | Inr r \<Rightarrow>
          (case relative_strs ps root_dir of
             Inl e \<Rightarrow> Inl e
           | Inr rs \<Rightarrow> Inr (path_str r # rs)))"

text \<open>
  The loop of \<open>create_json_report\<close> over \<^verbatim>\<open>all_files_metadata\<close>; its state is
  \<^verbatim>\<open>processed_groups\<close>, \<^verbatim>\<open>kept_files_info\<close> and the entries written so far.
\<close>

type_synonym report_state = "nat list \<times> (path \<times> nat) list \<times> report_item list"

fun json_report_loop ::
  "path list list \<Rightarrow> path \<Rightarrow> (path \<times> nat \<times> real) list \<Rightarrow> report_state \<Rightarrow> py_error + report_state"
where
  "json_report_loop confirmed_duplicates root_dir [] st = Inr st"
| "json_report_loop confirmed_duplicates root_dir ((file_path, sz, mtime) # rest)
     (processed_groups, kept_files_info, items) =
     (if file_path \<in> (\<Union>grp \<in> set confirmed_duplicates. set grp) then
        (case file_to_group_map confirmed_duplicates file_path of
           None \<Rightarrow> Inl KeyError
         | Some (gid, grp) \<Rightarrow>
             if gid \<notin> set processed_groups then
               (case guess_keeper grp of
                  Inl e \<Rightarrow> Inl e
                | Inr keeper_idx_1_based \<Rightarrow>
                    (case py_nth grp (int keeper_idx_1_based - 1) of
                       Inl e \<Rightarrow> Inl e
                     | Inr keeper \<Rightarrow>
                         (case relative_strs grp root_dir of
                            Inl e \<Rightarrow> Inl e
                          | Inr rels \<Rightarrow>
                              json_report_loop confirmed_duplicates root_dir rest
                                (processed_groups @ [gid],
                                 kept_files_info @ [(keeper, sz)],
                                 items @ [Duplicate_group sz rels (int keeper_idx_1_based - 1)]))))
             else json_report_loop confirmed_duplicates root_dir rest
                    (processed_groups, kept_files_info, items))
      else
        (case relative_to file_path root_dir of
           Inl e \<Rightarrow> Inl e
         | Inr r \<Rightarrow>
             json_report_loop confirmed_duplicates root_dir rest
               (processed_groups,
                kept_files_info @ [(file_path, sz)],
                items @ [Unique_file sz (path_str r)])))"

definition create_json_report ::
  "(path \<times> nat \<times> real) list \<Rightarrow> path list list \<Rightarrow> path \<Rightarrow> py_error + json_report"
where
  "create_json_report all_files_metadata confirmed_duplicates root_dir =
     (case json_report_loop confirmed_duplicates root_dir all_files_metadata ([], [], []) of
        Inl e \<Rightarrow> Inl e
      | Inr (processed_groups, kept_files_info, items) \<Rightarrow>
          Inr \<lparr> files_to_process = items,
                total_files_to_keep = length kept_files_info,
                total_size_to_keep_bytes = sum_list (map snd kept_files_info) \<rparr>)"

text \<open>The entries of a report respect the bound on \<^verbatim>\<open>keep_index\<close>.\<close>

fun keep_index_valid :: "report_item \<Rightarrow> bool" where
  "keep_index_valid (Duplicate_group size_bytes files keep_index) =
     (0 \<le> keep_index \<and> keep_index < int (length files))"
| "keep_index_valid (Unique_file size_bytes file) = True"

section \<open>The file system and the fingerprints (\<^verbatim>\<open>duplicate_finder.py\<close>)\<close>

text \<open>
  What the scripts ask of the file system, as it stands during one run:
  \<^verbatim>\<open>is_dir\<close>, the entries \<^verbatim>\<open>rglob("*")\<close> yields below a directory (in the order of the walk),
  \<^verbatim>\<open>is_file\<close> (which follows symbolic links), \<^verbatim>\<open>is_symlink\<close>, \<^verbatim>\<open>stat\<close> with the size and the
  modification time, and the bytes of a file. \<open>None\<close> stands for an \<^verbatim>\<open>OSError\<close>.
  Modification times are floats in Python; they are modelled as reals.
\<close>

record filesystem =
  is_dir :: "path \<Rightarrow> bool"
  rglob :: "path \<Rightarrow> path list"
  is_file :: "path \<Rightarrow> bool"
  is_symlink :: "path \<Rightarrow> bool"
  stat :: "path \<Rightarrow> (nat \<times> real) option"
  read_bytes :: "path \<Rightarrow> bytes option"

text \<open>
  \<^verbatim>\<open>xxhash.xxh64\<close> is a library function from byte strings to 64-bit values; the
  functions below take it as the parameter \<open>xxh64\<close>. \<^verbatim>\<open>hexdigest()\<close> writes the value as
  16 hexadecimal digits.
\<close>

definition hex_digit :: "nat \<Rightarrow> char" where
  "hex_digit n = ''0123456789abcdef'' ! (n mod 16)"

definition hexdigest :: "64 word \<Rightarrow> string" where
  "hexdigest w = map (\<lambda>i. hex_digit (unat (drop_bit (4 * i) w))) (rev [0..<16])"

definition CHUNK_SIZE :: nat where
  "CHUNK_SIZE = 4096"

text \<open>
  \<open>get_full_hash\<close> feeds the file to the hasher chunk by chunk, which hashes the whole
  content; a file that cannot be read gives the empty string.
\<close>

definition get_full_hash :: "(bytes \<Rightarrow> 64 word) \<Rightarrow> filesystem \<Rightarrow> path \<Rightarrow> string" where
  "get_full_hash xxh64 fs file =
     (case read_bytes fs file of
        None \<Rightarrow> []
      | Some content \<Rightarrow> hexdigest (xxh64 content))"

text \<open>
  \<open>get_partial_hash\<close>: the whole file when it is shorter than two chunks, else the
  first chunk followed by the last.
\<close>

definition get_partial_hash :: "(bytes \<Rightarrow> 64 word) \<Rightarrow> filesystem \<Rightarrow> path \<Rightarrow> string" where
  "get_partial_hash xxh64 fs file =
     (case stat fs file of
        None \<Rightarrow> []
      | Some (sz, mtime) \<Rightarrow>
          (case read_bytes fs file of
             None \<Rightarrow> []
           | Some content \<Rightarrow>
               if sz < CHUNK_SIZE * 2 then hexdigest (xxh64 content)
               else hexdigest (xxh64 (take CHUNK_SIZE content @
                      drop (length content - CHUNK_SIZE) content))))"

section \<open>Folder analysis (\<^verbatim>\<open>duplicate_finder.py\<close>)\<close>

datatype relationship =
    Exact_Duplicate path path
  | Subset path path

text \<open>
  \<^verbatim>\<open>{file: full_hash for full_hash, files_list in full_hashes_map.items() for file in files_list}\<close>:
  a later entry overrides an earlier one. \<^verbatim>\<open>full_hashes_map\<close> is a dictionary in insertion
  order, here a list of pairs.
\<close>

definition all_file_hashes_of :: "(string \<times> path list) list \<Rightarrow> (path \<rightharpoonup> string)" where
  "all_file_hashes_of full_hashes_map =
     fold (\<lambda>(full_hash, files_list) m. fold (\<lambda>file m'. m'(file \<mapsto> full_hash)) files_list m)
       full_hashes_map Map.empty"

text \<open>
  \<^verbatim>\<open>folder_content_signatures[folder].add(file_hash)\<close> on a \<^verbatim>\<open>defaultdict(set)\<close>: a known
  folder keeps its place, a new one goes to the end.
\<close>

type_synonym signatures = "(path \<times> string set) list"

fun add_signature :: "signatures \<Rightarrow> path \<Rightarrow> string \<Rightarrow> signatures" where
  "add_signature [] folder h = [(folder, {h})]"
| "add_signature ((f, hs) # rest) folder h =
     (if f = folder then (f, insert h hs) # rest else (f, hs) # add_signature rest folder h)"

definition signature_of :: "signatures \<Rightarrow> path \<Rightarrow> string set" where
  "signature_of sigs folder = (case map_of sigs folder of None \<Rightarrow> {} | Some hs \<Rightarrow> hs)"

text \<open>
  The first loop: a file without a known hash is hashed now, and the hash is remembered
  when it is not empty; a non-empty hash enters the signature of the parent folder.
\<close>

fun build_signatures ::
  "(bytes \<Rightarrow> 64 word) \<Rightarrow> filesystem \<Rightarrow> path list \<Rightarrow> (path \<rightharpoonup> string) \<times> signatures
     \<Rightarrow> (path \<rightharpoonup> string) \<times> signatures"
where
  "build_signatures xxh64 fs [] st = st"
| "build_signatures xxh64 fs (file # rest) (all_file_hashes, sigs) =
     (case all_file_hashes file of
        None \<Rightarrow>
          (let file_hash = get_full_hash xxh64 fs file in
             if file_hash \<noteq> [] then
               build_signatures xxh64 fs rest
                 (all_file_hashes(file \<mapsto> file_hash),
                  add_signature sigs (path_parent file) file_hash)
             else build_signatures xxh64 fs rest (all_file_hashes, sigs))
      | Some file_hash \<Rightarrow>
          if file_hash \<noteq> [] then
            build_signatures xxh64 fs rest
              (all_file_hashes, add_signature sigs (path_parent file) file_hash)
          else build_signatures xxh64 fs rest (all_file_hashes, sigs))"

text \<open>The second loop: per folder the total size, the number of files, the latest modification.\<close>

type_synonym folder_stats = "(path \<times> nat \<times> nat \<times> real) list"

fun add_stats :: "folder_stats \<Rightarrow> path \<Rightarrow> nat \<Rightarrow> real \<Rightarrow> folder_stats" where
  "add_stats [] folder sz mtime = [(folder, sz, 1, max 0 mtime)]"
| "add_stats ((f, tot, n, latest) # rest) folder sz mtime =
     (if f = folder then (f, tot + sz, n + 1, max latest mtime) # rest
      else (f, tot, n, latest) # add_stats rest folder sz mtime)"

fun gather_stats :: "filesystem \<Rightarrow> path list \<Rightarrow> folder_stats \<Rightarrow> folder_stats" where
  "gather_stats fs [] acc = acc"
| "gather_stats fs (file # rest) acc =
     (case stat fs file of
        None \<Rightarrow> gather_stats fs rest acc
      | Some (sz, mtime) \<Rightarrow> gather_stats fs rest (add_stats acc (path_parent file) sz mtime))"

text \<open>\<^verbatim>\<open>itertools.combinations(xs, 2)\<close>.\<close>

fun combinations2 :: "'a list \<Rightarrow> ('a \<times> 'a) list" where
  "combinations2 [] = []"
| "combinations2 (x # xs) = map (Pair x) xs @ combinations2 xs"

text \<open>The body of the third loop, for one pair of folders.\<close>

definition compare_folders :: "signatures \<Rightarrow> path \<times> path \<Rightarrow> relationship list" where
  "compare_folders sigs pair =
     (let folder_a = fst pair; folder_b = snd pair;
          hashes_a = signature_of sigs folder_a;
          hashes_b = signature_of sigs folder_b
      in if hashes_a = {} \<or> hashes_b = {} then []
         else if hashes_a = hashes_b then [Exact_Duplicate folder_a folder_b]
         else if hashes_a \<subseteq> hashes_b then [Subset folder_a folder_b]
         else if hashes_b \<subseteq> hashes_a then [Subset folder_b folder_a]
         else [])"

definition analyze_folder_duplicates ::
  "(bytes \<Rightarrow> 64 word) \<Rightarrow> filesystem \<Rightarrow> path list \<Rightarrow> (string \<times> path list) list
     \<Rightarrow> relationship list \<times> folder_stats"
where
  "analyze_folder_duplicates xxh64 fs all_files full_hashes_map =
     (let folder_content_signatures =
            snd (build_signatures xxh64 fs all_files (all_file_hashes_of full_hashes_map, []));
          folder_stats = gather_stats fs all_files [];
          folders_to_compare = map fst folder_content_signatures
      in (concat (map (compare_folders folder_content_signatures) (combinations2 folders_to_compare)),
          folder_stats))"

text \<open>
  The content signature of a folder, said directly: the non-empty hashes of the scanned
  files that lie directly in the folder, a hash being the one \<^verbatim>\<open>full_hashes_map\<close> records
  for the file, else the one computed from its bytes.
\<close>

definition hash_from ::
  "(bytes \<Rightarrow> 64 word) \<Rightarrow> filesystem \<Rightarrow> (path \<rightharpoonup> string) \<Rightarrow> path \<Rightarrow> string"
where
  "hash_from xxh64 fs known file =
     (case known file of
        None \<Rightarrow> get_full_hash xxh64 fs file
      | Some h \<Rightarrow> h)"

definition file_hash_of ::
  "(bytes \<Rightarrow> 64 word) \<Rightarrow> filesystem \<Rightarrow> (string \<times> path list) list \<Rightarrow> path \<Rightarrow> string"
where
  "file_hash_of xxh64 fs full_hashes_map file =
     hash_from xxh64 fs (all_file_hashes_of full_hashes_map) file"

definition content_signature ::
  "(bytes \<Rightarrow> 64 word) \<Rightarrow> filesystem \<Rightarrow> (string \<times> path list) list \<Rightarrow> path list \<Rightarrow> path
     \<Rightarrow> string set"
where
  "content_signature xxh64 fs full_hashes_map all_files folder =
     file_hash_of xxh64 fs full_hashes_map `
       {file \<in> set all_files. path_parent file = folder \<and>
                              file_hash_of xxh64 fs full_hashes_map file \<noteq> []}"

text \<open>The folders a relationship names.\<close>

fun folders_of :: "relationship \<Rightarrow> path set" where
  "folders_of (Exact_Duplicate folder_a folder_b) = {folder_a, folder_b}"
| "folders_of (Subset sub_folder super_folder) = {sub_folder, super_folder}"

text \<open>Every folder with an entry has a non-empty signature, and no other has one.\<close>

definition keyed :: "signatures \<Rightarrow> bool" where
  "keyed sigs = (\<forall>f. f \<in> fst ` set sigs \<longleftrightarrow> signature_of sigs f \<noteq> {})"

section \<open>A small tree and a hash function for the examples\<close>

text \<open>
  Three folders: \<^verbatim>\<open>dir_A\<close> and \<^verbatim>\<open>dir_C\<close> hold the same two contents, \<^verbatim>\<open>dir_B\<close> holds them
  and a third. The example hash function stands for \<^verbatim>\<open>xxh64\<close> in evaluations only.
\<close>

definition example_xxh64 :: "bytes \<Rightarrow> 64 word" where
  "example_xxh64 content = word_of_nat (length content) * 256 + sum_list (map ucast content)"

definition folder_tree_files :: "path list" where
  "folder_tree_files =
     [[''t'', ''dir_A'', ''file1.txt''], [''t'', ''dir_A'', ''file2.txt''],
      [''t'', ''dir_B'', ''file1_copy.txt''], [''t'', ''dir_B'', ''file2_copy.txt''],
      [''t'', ''dir_B'', ''unique_in_B.txt''],
      [''t'', ''dir_C'', ''file1_another_copy.txt''], [''t'', ''dir_C'', ''file2_another_copy.txt'']]"

definition folder_tree :: filesystem where
  "folder_tree =
     \<lparr> is_dir = (\<lambda>p. p \<in> {[''t''], [''t'', ''dir_A''], [''t'', ''dir_B''], [''t'', ''dir_C'']}),
       rglob = (\<lambda>p. if p = [''t''] then
                  [[''t'', ''dir_A''], [''t'', ''dir_A'', ''file1.txt''], [''t'', ''dir_A'', ''file2.txt''],
                   [''t'', ''dir_B''], [''t'', ''dir_B'', ''file1_copy.txt''],
                   [''t'', ''dir_B'', ''file2_copy.txt''], [''t'', ''dir_B'', ''unique_in_B.txt''],
                   [''t'', ''dir_C''], [''t'', ''dir_C'', ''file1_another_copy.txt''],
                   [''t'', ''dir_C'', ''file2_another_copy.txt'']]
                else []),
       is_file = (\<lambda>p. p \<in> set folder_tree_files),
       is_symlink = (\<lambda>p. False),
       stat = map_of
         [([''t'', ''dir_A'', ''file1.txt''], (1, 100)), ([''t'', ''dir_A'', ''file2.txt''], (2, 100)),
          ([''t'', ''dir_B'', ''file1_copy.txt''], (1, 100)), ([''t'', ''dir_B'', ''file2_copy.txt''], (2, 100)),
          ([''t'', ''dir_B'', ''unique_in_B.txt''], (3, 100)),
          ([''t'', ''dir_C'', ''file1_another_copy.txt''], (1, 100)),
          ([''t'', ''dir_C'', ''file2_another_copy.txt''], (2, 100))],
       read_bytes = map_of
         [([''t'', ''dir_A'', ''file1.txt''], [65]), ([''t'', ''dir_A'', ''file2.txt''], [66, 66]),
          ([''t'', ''dir_B'', ''file1_copy.txt''], [65]), ([''t'', ''dir_B'', ''file2_copy.txt''], [66, 66]),
          ([''t'', ''dir_B'', ''unique_in_B.txt''], [67, 67, 67]),
          ([''t'', ''dir_C'', ''file1_another_copy.txt''], [65]),
          ([''t'', ''dir_C'', ''file2_another_copy.txt''], [66, 66])] \<rparr>"

section \<open>The entry point of the cleaner (\<^verbatim>\<open>duplicate_file_cleaner.py\<close>)\<close>

text \<open>
  \<open>process_report_actions\<close> never assigns the name \<^verbatim>\<open>workbook\<close>, so Python looks it up
  among the global names of the module and then among the builtins, and raises
  \<^verbatim>\<open>NameError\<close> when it is in neither. The global names are the imports, the constant
  and the functions of the module, and the names every module has.
\<close>

definition cleaner_globals :: "string list" where
  "cleaner_globals =
     [''__name__'', ''__doc__'', ''__package__'', ''__loader__'', ''__spec__'', ''__file__'',
      ''__cached__'', ''__builtins__'',
      ''argparse'', ''os'', ''Path'', ''tqdm'', ''send2trash'', ''shutil'',
      ''ThreadPoolExecutor'', ''as_completed'', ''openpyxl'', ''json'',
      ''DEFAULT_REPORT_FILE'', ''files_are_identical'',
      ''_read_tasks_from_json'', ''_read_tasks_from_xlsx'', ''process_report_actions'',
      ''_perform_single_copy'', ''_perform_single_delete'',
      ''_update_report_with_failed_actions'', ''main'']"

definition python_builtins :: "string list" where
  "python_builtins =
     [''ArithmeticError'', ''AssertionError'', ''AttributeError'', ''BaseException'',
      ''BaseExceptionGroup'', ''BlockingIOError'', ''BrokenPipeError'', ''BufferError'',
      ''BytesWarning'', ''ChildProcessError'', ''ConnectionAbortedError'',
      ''ConnectionError'', ''ConnectionRefusedError'', ''ConnectionResetError'',
      ''DeprecationWarning'', ''EOFError'', ''Ellipsis'', ''EncodingWarning'',
      ''EnvironmentError'', ''Exception'', ''ExceptionGroup'', ''False'', ''FileExistsError'',
      ''FileNotFoundError'', ''FloatingPointError'', ''FutureWarning'', ''GeneratorExit'',
      ''IOError'', ''ImportError'', ''ImportWarning'', ''IndentationError'', ''IndexError'',
      ''InterruptedError'', ''IsADirectoryError'', ''KeyError'', ''KeyboardInterrupt'',
      ''LookupError'', ''MemoryError'', ''ModuleNotFoundError'', ''NameError'', ''None'',
      ''NotADirectoryError'', ''NotImplemented'', ''NotImplementedError'', ''OSError'',
      ''OverflowError'', ''PendingDeprecationWarning'', ''PermissionError'',
      ''ProcessLookupError'', ''RecursionError'', ''ReferenceError'', ''ResourceWarning'',
      ''RuntimeError'', ''RuntimeWarning'', ''StopAsyncIteration'', ''StopIteration'',
      ''SyntaxError'', ''SyntaxWarning'', ''SystemError'', ''SystemExit'', ''TabError'',
      ''TimeoutError'', ''True'', ''TypeError'', ''UnboundLocalError'',
      ''UnicodeDecodeError'', ''UnicodeEncodeError'', ''UnicodeError'',
      ''UnicodeTranslateError'', ''UnicodeWarning'', ''UserWarning'', ''ValueError'',
      ''Warning'', ''ZeroDivisionError'', ''__build_class__'', ''__debug__'', ''__doc__'',
      ''__import__'', ''__loader__'', ''__name__'', ''__package__'', ''__spec__'', ''abs'',
      ''aiter'', ''all'', ''anext'', ''any'', ''ascii'', ''bin'', ''bool'', ''breakpoint'',
      ''bytearray'', ''bytes'', ''callable'', ''chr'', ''classmethod'', ''compile'',
      ''complex'', ''copyright'', ''credits'', ''delattr'', ''dict'', ''dir'', ''divmod'',
      ''enumerate'', ''eval'', ''exec'', ''exit'', ''filter'', ''float'', ''format'',
      ''frozenset'', ''getattr'', ''globals'', ''hasattr'', ''hash'', ''help'', ''hex'',
      ''id'', ''input'', ''int'', ''isinstance'', ''issubclass'', ''iter'', ''len'',
      ''license'', ''list'', ''locals'', ''map'', ''max'', ''memoryview'', ''min'', ''next'',
      ''object'', ''oct'', ''open'', ''ord'', ''pow'', ''print'', ''property'', ''quit'',
      ''range'', ''repr'', ''reversed'', ''round'', ''set'', ''setattr'', ''slice'',
      ''sorted'', ''staticmethod'', ''str'', ''sum'', ''super'', ''tuple'', ''type'',
      ''vars'', ''zip'']"

definition load_global :: "string \<Rightarrow> py_error + unit" where
  "load_global name =
     (if name \<in> set cleaner_globals \<or> name \<in> set python_builtins then Inr ()
      else Inl NameError)"

text \<open>
  \<open>process_report_actions\<close> up to its first use of \<^verbatim>\<open>workbook\<close>. It returns at once
  (\<open>None\<close>) when the report is not a file. Otherwise the next statement evaluates
  \<^verbatim>\<open>workbook.sheetnames\<close>; what follows it, with a workbook at hand, is the parameter
  \<open>rest\<close>: the choice of the sheet, the reading of the tasks by the reader of the
  report's format (\<open>_read_tasks_from_json\<close> or \<open>_read_tasks_from_xlsx\<close>), the
  confirmation and the execution of the tasks.
\<close>

definition process_report_actions ::
  "filesystem \<Rightarrow> path \<Rightarrow> (py_error + 'r) \<Rightarrow> py_error + 'r option"
where
  "process_report_actions fs report_path rest =
     (if \<not> is_file fs report_path then Inr None
      else
        (case load_global ''workbook'' of
           Inl e \<Rightarrow> Inl e
         | Inr _ \<Rightarrow> (case rest of Inl e \<Rightarrow> Inl e | Inr r \<Rightarrow> Inr (Some r))))"

section \<open>Facts about keeper selection\<close>

lemma list_index_member:
  "x \<in> set xs \<Longrightarrow> \<exists>i. list_index xs x = Inr i \<and> i < length xs \<and> xs ! i = x"
proof (induction xs)
  case Nil
  then show ?case by simp
next
  case (Cons y ys)
  show ?case
  proof (cases "y = x")
    case True
    then show ?thesis by simp
  next
    case False
    with Cons.prems have "x \<in> set ys" by simp
    from Cons.IH [OF this] obtain i where "list_index ys x = Inr i" "i < length ys" "ys ! i = x"
      by blast
    with False show ?thesis by simp
  qed
qed

lemma sorted_scores_head:
  assumes "grp \<noteq> []"
  obtains best rest where
    "sort (map (\<lambda>p. (get_filename_score p, p)) grp) = best # rest"
    "snd best \<in> set grp"
    "fst best = get_filename_score (snd best)"
    "\<forall>q \<in> set grp. best \<le> (get_filename_score q, q)"
proof -
  define scores where "scores = map (\<lambda>p. (get_filename_score p, p)) grp"
  have "scores \<noteq> []" using assms by (simp add: scores_def)
  then have "length (sort scores) \<noteq> 0" by simp
  then have "sort scores \<noteq> []" by (simp only: length_0_conv not_False_eq_True)
  then obtain best rest where eq: "sort scores = best # rest"
    by (cases "sort scores") simp_all
  have seteq: "set (best # rest) = set scores"
  proof -
    have "set (sort scores) = set scores" by simp
    with eq show ?thesis by simp
  qed
  have "best \<in> set scores" using seteq by auto
  then have m1: "snd best \<in> set grp" and m2: "fst best = get_filename_score (snd best)"
    by (auto simp: scores_def)
  have "sorted (sort scores)" by simp
  with eq have srt: "sorted (best # rest)" by simp
  then have le_rest: "\<forall>s \<in> set rest. best \<le> s" by (simp only: sorted_simps) blast
  have m3: "\<forall>q \<in> set grp. best \<le> (get_filename_score q, q)"
  proof
    fix q assume "q \<in> set grp"
    then have "(get_filename_score q, q) \<in> set scores" by (simp add: scores_def)
    with seteq have "(get_filename_score q, q) \<in> set (best # rest)" by simp
    then have "(get_filename_score q, q) = best \<or> (get_filename_score q, q) \<in> set rest"
      by (simp only: set_simps insert_iff)
    with le_rest show "best \<le> (get_filename_score q, q)" by (metis order_refl)
  qed
  from eq m1 m2 m3 show thesis unfolding scores_def by (rule that)
qed



lemma guess_keeper_nonempty:
  assumes "grp \<noteq> []"
  obtains p i where
    "guess_keeper grp = Inr (i + 1)" "i < length grp" "grp ! i = p" "p \<in> set grp"
    "\<forall>q \<in> set grp. (get_filename_score p, p) \<le> (get_filename_score q, q)"
proof -
  from sorted_scores_head [OF assms] obtain best rest where
    eq: "sort (map (\<lambda>p. (get_filename_score p, p)) grp) = best # rest" and
    m1: "snd best \<in> set grp" and
    m2: "fst best = get_filename_score (snd best)" and
    m3: "\<forall>q \<in> set grp. best \<le> (get_filename_score q, q)"
    by blast
  from list_index_member [OF m1] obtain i where
    ix: "list_index grp (snd best) = Inr i" and il: "i < length grp" and ie: "grp ! i = snd best"
    by blast
  have gk: "guess_keeper grp = Inr (i + 1)"
    using assms eq ix by (simp add: guess_keeper_def)
  have bb: "best = (get_filename_score (snd best), snd best)"
    using m2 by (metis prod.collapse)
  have m4: "\<forall>q \<in> set grp. (get_filename_score (snd best), snd best) \<le> (get_filename_score q, q)"
    using m3 bb by simp
  from gk il ie m1 m4 show thesis by (rule that)
qed

lemma guess_keeper_empty: "guess_keeper [] = Inr 0"
  by (simp add: guess_keeper_def)

lemma guess_keeper_range:
  assumes "grp \<noteq> []"
  shows "\<exists>k. guess_keeper grp = Inr k \<and> 1 \<le> k \<and> k \<le> length grp"
proof -
  from guess_keeper_nonempty [OF assms] obtain p i where
    "guess_keeper grp = Inr (i + 1)" "i < length grp" by blast
  then show ?thesis by auto
qed


lemma relative_strs_length:
  "relative_strs ps root_dir = Inr rs \<Longrightarrow> length rs = length ps"
proof (induction ps arbitrary: rs)
  case Nil
  then show ?case by simp
next
  case (Cons p ps)
  then show ?case by (auto split: sum.splits)
qed

lemma py_nth_guess_keeper_bounds:
  assumes "guess_keeper grp = Inr k" and "py_nth grp (int k - 1) = Inr x"
  shows "0 \<le> int k - 1 \<and> int k - 1 < int (length grp)"
proof (cases "grp = []")
  case True
  with assms(2) show ?thesis by (auto simp: py_nth_def Let_def split: if_splits)
next
  case False
  from guess_keeper_range [OF False] assms(1) have "1 \<le> k \<and> k \<le> length grp" by auto
  then show ?thesis by auto
qed

lemma json_report_loop_valid:
  assumes "json_report_loop cd root_dir meta st = Inr st'"
    and "\<forall>item \<in> set (snd (snd st)). keep_index_valid item"
  shows "\<forall>item \<in> set (snd (snd st')). keep_index_valid item"
  using assms
proof (induction cd root_dir meta st arbitrary: st' rule: json_report_loop.induct)
  case (1 cd root_dir st)
  then show ?case by simp
next
  case (2 cd root_dir file_path sz mtime rest processed kept items)
  show ?case
  proof (cases "file_path \<in> (\<Union>grp \<in> set cd. set grp)")
    case dup: True
    from "2.prems"(1) dup obtain gid grp where
      fg: "file_to_group_map cd file_path = Some (gid, grp)"
      by (auto split: option.splits)
    show ?thesis
    proof (cases "gid \<notin> set processed")
      case fresh: True
      from "2.prems"(1) dup fg fresh obtain k where gk: "guess_keeper grp = Inr k"
        by (auto split: sum.splits)
      from "2.prems"(1) dup fg fresh gk obtain keeper where
        pn: "py_nth grp (int k - 1) = Inr keeper"
        by (auto split: sum.splits)
      from "2.prems"(1) dup fg fresh gk pn obtain rels where
        rl: "relative_strs grp root_dir = Inr rels"
        by (auto split: sum.splits)
      let ?st = "(processed @ [gid], kept @ [(keeper, sz)],
                  items @ [Duplicate_group sz rels (int k - 1)])"
      from "2.prems"(1) dup fg fresh gk pn rl
      have run: "json_report_loop cd root_dir rest ?st = Inr st'" by simp
      have "keep_index_valid (Duplicate_group sz rels (int k - 1))"
        using py_nth_guess_keeper_bounds [OF gk pn] relative_strs_length [OF rl] by simp
      with "2.prems"(2) have inv: "\<forall>item \<in> set (snd (snd ?st)). keep_index_valid item"
        by simp
      from "2.IH"(1) [OF dup fg refl fresh gk pn rl run inv] show ?thesis .
    next
      case seen: False
      from "2.prems"(1) dup fg seen
      have run: "json_report_loop cd root_dir rest (processed, kept, items) = Inr st'" by simp
      from "2.IH"(2) [OF dup fg refl seen run "2.prems"(2)] show ?thesis .
    qed
  next
    case uniq: False
    from "2.prems"(1) uniq obtain r where rt: "relative_to file_path root_dir = Inr r"
      by (auto split: sum.splits)
    let ?st = "(processed, kept @ [(file_path, sz)], items @ [Unique_file sz (path_str r)])"
    from "2.prems"(1) uniq rt
    have run: "json_report_loop cd root_dir rest ?st = Inr st'" by simp
    from "2.prems"(2) have inv: "\<forall>item \<in> set (snd (snd ?st)). keep_index_valid item"
      by simp
    from "2.IH"(3) [OF uniq rt run inv] show ?thesis .
  qed
qed

lemma create_json_report_valid:
  assumes "create_json_report meta cd root_dir = Inr rep"
  shows "\<forall>item \<in> set (files_to_process rep). keep_index_valid item"
proof -
  from assms obtain processed kept items where
    run: "json_report_loop cd root_dir meta ([], [], []) = Inr (processed, kept, items)" and
    rep: "files_to_process rep = items"
    by (auto simp: create_json_report_def split: sum.splits)
  from json_report_loop_valid [OF run] rep show ?thesis by simp
qed


text \<open>
  Claim C10. \<open>guess_keeper\<close> answers 0 for an empty group and, for a non-empty group, a
  1-based position between 1 and the length of the group. Hence every
  \<^verbatim>\<open>duplicate_group\<close> entry that \<open>create_json_report\<close> writes carries a \<^verbatim>\<open>keep_index\<close>
  that is a valid 0-based index into its list of files. (The spreadsheet report writes
  the 1-based answer of the same \<open>guess_keeper\<close> into its \<^verbatim>\<open>Keep\<close> column.)
\<close>

theorem guess_keeper_index_in_range:
  "guess_keeper [] = Inr 0 \<and>
   (grp \<noteq> [] \<longrightarrow> (\<exists>k. guess_keeper grp = Inr k \<and> 1 \<le> k \<and> k \<le> length grp)) \<and>
   (create_json_report meta cd root_dir = Inr rep \<longrightarrow>
      (\<forall>item \<in> set (files_to_process rep). keep_index_valid item))"
  using guess_keeper_empty guess_keeper_range create_json_report_valid by blast

theorem guess_keeper_index_in_range_witness:
  "[[''r'', ''sub'', ''a_copy.txt''], [''r'', ''a.txt'']] \<noteq> [] \<and>
   guess_keeper [[''r'', ''sub'', ''a_copy.txt''], [''r'', ''a.txt'']] = Inr 2 \<and>
   create_json_report
     [([''r'', ''a.txt''], 5, 10), ([''r'', ''sub'', ''a_copy.txt''], 5, 11), ([''r'', ''b.txt''], 5, 12)]
     [[[''r'', ''a.txt''], [''r'', ''sub'', ''a_copy.txt'']]] [''r'']
   = Inr \<lparr> files_to_process =
             [Duplicate_group 5 [''a.txt'', ''sub/a_copy.txt''] 0, Unique_file 5 ''b.txt''],
           total_files_to_keep = 2, total_size_to_keep_bytes = 10 \<rparr> \<and>
   keep_index_valid (Duplicate_group 5 [''a.txt'', ''sub/a_copy.txt''] 0)"
proof -
  have h1: "[[''r'', ''sub'', ''a_copy.txt''], [''r'', ''a.txt'']] \<noteq> ([] :: path list)" by simp
  have h2: "guess_keeper [[''r'', ''sub'', ''a_copy.txt''], [''r'', ''a.txt'']] = Inr 2"
    by code_simp
  have h3: "create_json_report
     [([''r'', ''a.txt''], 5, 10), ([''r'', ''sub'', ''a_copy.txt''], 5, 11), ([''r'', ''b.txt''], 5, 12)]
     [[[''r'', ''a.txt''], [''r'', ''sub'', ''a_copy.txt'']]] [''r'']
   = Inr \<lparr> files_to_process =
             [Duplicate_group 5 [''a.txt'', ''sub/a_copy.txt''] 0, Unique_file 5 ''b.txt''],
           total_files_to_keep = 2, total_size_to_keep_bytes = 10 \<rparr>"
    by code_simp
  from guess_keeper_index_in_range
    [of "[[''r'', ''sub'', ''a_copy.txt''], [''r'', ''a.txt'']]"
        "[([''r'', ''a.txt''], 5, 10), ([''r'', ''sub'', ''a_copy.txt''], 5, 11), ([''r'', ''b.txt''], 5, 12)]"
        "[[[''r'', ''a.txt''], [''r'', ''sub'', ''a_copy.txt'']]]" "[''r'']"
        "\<lparr> files_to_process =
             [Duplicate_group 5 [''a.txt'', ''sub/a_copy.txt''] 0, Unique_file 5 ''b.txt''],
           total_files_to_keep = 2, total_size_to_keep_bytes = 10 \<rparr>"]
    h1 h2 h3
  show ?thesis by simp
qed



section \<open>Facts about the folder analysis\<close>

lemma signature_of_Nil: "signature_of [] folder = {}"
  by (simp add: signature_of_def)

lemma signature_of_add:
  "signature_of (add_signature sigs f h) g =
     (if g = f then insert h (signature_of sigs f) else signature_of sigs g)"
proof (induction sigs)
  case Nil
  show ?case by (simp add: signature_of_def)
next
  case (Cons a sigs)
  obtain f' hs where a: "a = (f', hs)" by (cases a)
  show ?case
  proof (cases "f' = f")
    case True
    then show ?thesis by (simp add: a signature_of_def)
  next
    case False
    with Cons.IH show ?thesis by (cases "g = f") (simp_all add: a signature_of_def)
  qed
qed

lemma keys_add_signature:
  "fst ` set (add_signature sigs f h) = insert f (fst ` set sigs)"
proof (induction sigs)
  case Nil
  show ?case by simp
next
  case (Cons a sigs)
  obtain f' hs where a: "a = (f', hs)" by (cases a)
  show ?case
  proof (cases "f' = f")
    case True
    then show ?thesis by (simp add: a insert_absorb)
  next
    case False
    with Cons.IH show ?thesis by (simp add: a insert_commute)
  qed
qed

lemma keyed_Nil: "keyed []"
  by (simp add: keyed_def signature_of_def)

lemma keyed_add: "keyed sigs \<Longrightarrow> keyed (add_signature sigs f h)"
  unfolding keyed_def by (simp add: signature_of_add keys_add_signature)

lemma hash_from_remember:
  assumes "known f0 = None"
  shows "hash_from xxh64 fs (known(f0 \<mapsto> get_full_hash xxh64 fs f0)) = hash_from xxh64 fs known"
proof
  fix g
  show "hash_from xxh64 fs (known(f0 \<mapsto> get_full_hash xxh64 fs f0)) g = hash_from xxh64 fs known g"
    using assms by (simp add: hash_from_def)
qed

lemma build_signatures_step:
  obtains known1 where
    "build_signatures xxh64 fs (f0 # rest) (known, sigs) =
       build_signatures xxh64 fs rest
         (known1,
          if hash_from xxh64 fs known f0 \<noteq> []
          then add_signature sigs (path_parent f0) (hash_from xxh64 fs known f0) else sigs)"
    "hash_from xxh64 fs known1 = hash_from xxh64 fs known"
proof (cases "known f0")
  case None
  then have h: "hash_from xxh64 fs known f0 = get_full_hash xxh64 fs f0"
    by (simp add: hash_from_def)
  show ?thesis
  proof (cases "get_full_hash xxh64 fs f0 = []")
    case True
    with None h have "build_signatures xxh64 fs (f0 # rest) (known, sigs) =
         build_signatures xxh64 fs rest
         (known,
          if hash_from xxh64 fs known f0 \<noteq> []
          then add_signature sigs (path_parent f0) (hash_from xxh64 fs known f0) else sigs)"
      by simp
    then show ?thesis using that by blast
  next
    case False
    with None h have "build_signatures xxh64 fs (f0 # rest) (known, sigs) =
         build_signatures xxh64 fs rest
         (known(f0 \<mapsto> get_full_hash xxh64 fs f0),
          if hash_from xxh64 fs known f0 \<noteq> []
          then add_signature sigs (path_parent f0) (hash_from xxh64 fs known f0) else sigs)"
      by (simp add: Let_def)
    moreover have "hash_from xxh64 fs (known(f0 \<mapsto> get_full_hash xxh64 fs f0)) =
                   hash_from xxh64 fs known"
      using None by (rule hash_from_remember)
    ultimately show ?thesis using that by blast
  qed
next
  case (Some h0)
  then have h: "hash_from xxh64 fs known f0 = h0" by (simp add: hash_from_def)
  with Some have "build_signatures xxh64 fs (f0 # rest) (known, sigs) =
         build_signatures xxh64 fs rest
         (known,
          if hash_from xxh64 fs known f0 \<noteq> []
          then add_signature sigs (path_parent f0) (hash_from xxh64 fs known f0) else sigs)"
    by simp
  then show ?thesis using that by blast
qed

lemma build_signatures_result:
  assumes "build_signatures xxh64 fs files (known, sigs) = (known', sigs')"
  shows "signature_of sigs' folder =
           signature_of sigs folder \<union>
           hash_from xxh64 fs known `
             {f \<in> set files. path_parent f = folder \<and> hash_from xxh64 fs known f \<noteq> []}"
  using assms
proof (induction files arbitrary: known sigs)
  case Nil
  then show ?case by simp
next
  case (Cons f0 rest)
  let ?h = "hash_from xxh64 fs known f0"
  let ?sigs1 = "if ?h \<noteq> [] then add_signature sigs (path_parent f0) ?h else sigs"
  from build_signatures_step [of xxh64 fs f0 rest known sigs] obtain known1 where
    step: "build_signatures xxh64 fs (f0 # rest) (known, sigs) =
           build_signatures xxh64 fs rest (known1, ?sigs1)" and
    same: "hash_from xxh64 fs known1 = hash_from xxh64 fs known"
    by blast
  from Cons.prems have run: "build_signatures xxh64 fs rest (known1, ?sigs1) = (known', sigs')"
    by (simp only: step)
  from Cons.IH [OF run] same
  have ih: "signature_of sigs' folder =
         signature_of ?sigs1 folder \<union>
         hash_from xxh64 fs known `
           {f \<in> set rest. path_parent f = folder \<and> hash_from xxh64 fs known f \<noteq> []}"
    by simp
  show ?case
  proof (cases "?h \<noteq> []")
    case True
    then have s1: "signature_of ?sigs1 folder =
        (if folder = path_parent f0 then insert ?h (signature_of sigs folder)
         else signature_of sigs folder)"
      by (simp add: signature_of_add)
    have split: "{f \<in> set (f0 # rest). path_parent f = folder \<and> hash_from xxh64 fs known f \<noteq> []} =
        (if path_parent f0 = folder then {f0} else {}) \<union>
        {f \<in> set rest. path_parent f = folder \<and> hash_from xxh64 fs known f \<noteq> []}"
      using True by auto
    show ?thesis unfolding ih s1 split by auto
  next
    case False
    then have s1: "signature_of ?sigs1 folder = signature_of sigs folder" by simp
    have split: "{f \<in> set (f0 # rest). path_parent f = folder \<and> hash_from xxh64 fs known f \<noteq> []} =
        {f \<in> set rest. path_parent f = folder \<and> hash_from xxh64 fs known f \<noteq> []}"
      using False by auto
    show ?thesis unfolding ih s1 split by simp
  qed
qed

lemma build_signatures_keyed:
  assumes "build_signatures xxh64 fs files (known, sigs) = (known', sigs')" and "keyed sigs"
  shows "keyed sigs'"
  using assms
proof (induction files arbitrary: known sigs)
  case Nil
  then show ?case by simp
next
  case (Cons f0 rest)
  let ?h = "hash_from xxh64 fs known f0"
  let ?sigs1 = "if ?h \<noteq> [] then add_signature sigs (path_parent f0) ?h else sigs"
  from build_signatures_step [of xxh64 fs f0 rest known sigs] obtain known1 where
    step: "build_signatures xxh64 fs (f0 # rest) (known, sigs) =
           build_signatures xxh64 fs rest (known1, ?sigs1)"
    by blast
  from Cons.prems(1) have run: "build_signatures xxh64 fs rest (known1, ?sigs1) = (known', sigs')"
    by (simp only: step)
  from Cons.prems(2) have "keyed ?sigs1" by (simp add: keyed_add)
  from Cons.IH [OF run this] show ?case .
qed

lemma combinations2_members:
  "(x, y) \<in> set (combinations2 xs) \<Longrightarrow> x \<in> set xs \<and> y \<in> set xs"
  by (induction xs) auto

lemma combinations2_covers:
  "x \<in> set xs \<Longrightarrow> y \<in> set xs \<Longrightarrow> x \<noteq> y \<Longrightarrow>
   (x, y) \<in> set (combinations2 xs) \<or> (y, x) \<in> set (combinations2 xs)"
  by (induction xs) auto

lemma compare_folders_Exact:
  "Exact_Duplicate a b \<in> set (compare_folders sigs pair) \<longleftrightarrow>
     pair = (a, b) \<and> signature_of sigs a \<noteq> {} \<and> signature_of sigs b \<noteq> {} \<and>
     signature_of sigs a = signature_of sigs b"
proof (cases pair)
  case (Pair p q)
  show ?thesis
  proof (cases "signature_of sigs p = {} \<or> signature_of sigs q = {}")
    case True
    then show ?thesis using Pair by (auto simp: compare_folders_def Let_def)
  next
    case ne: False
    show ?thesis
    proof (cases "signature_of sigs p = signature_of sigs q")
      case True
      then show ?thesis using Pair ne by (auto simp: compare_folders_def Let_def)
    next
      case False
      then show ?thesis using Pair ne by (auto simp: compare_folders_def Let_def)
    qed
  qed
qed

lemma compare_folders_Subset:
  "Subset a b \<in> set (compare_folders sigs pair) \<longleftrightarrow>
     (pair = (a, b) \<or> pair = (b, a)) \<and> signature_of sigs a \<noteq> {} \<and>
     signature_of sigs b \<noteq> {} \<and> signature_of sigs a \<subset> signature_of sigs b"
proof (cases pair)
  case (Pair p q)
  show ?thesis
  proof (cases "signature_of sigs p = {} \<or> signature_of sigs q = {}")
    case True
    then show ?thesis using Pair by (auto simp: compare_folders_def Let_def)
  next
    case ne: False
    show ?thesis
    proof (cases "signature_of sigs p = signature_of sigs q")
      case True
      then show ?thesis using Pair ne by (auto simp: compare_folders_def Let_def)
    next
      case neq: False
      show ?thesis
      proof (cases "signature_of sigs p \<subseteq> signature_of sigs q")
        case True
        then have "\<not> signature_of sigs q \<subseteq> signature_of sigs p" using neq by blast
        with True neq ne Pair show ?thesis
          by (auto simp: compare_folders_def Let_def)
      next
        case nsub: False
        show ?thesis
        proof (cases "signature_of sigs q \<subseteq> signature_of sigs p")
          case True
          with nsub neq ne Pair show ?thesis
            by (auto simp: compare_folders_def Let_def)
        next
          case False
          with nsub neq ne Pair show ?thesis
            by (auto simp: compare_folders_def Let_def)
        qed
      qed
    qed
  qed
qed

lemma compare_folders_mentions:
  assumes "r \<in> set (compare_folders sigs pair)" and "z \<in> folders_of r"
  shows "(z = fst pair \<or> z = snd pair) \<and> signature_of sigs z \<noteq> {}"
  using assms
  by (cases pair) (auto simp: compare_folders_def Let_def split: if_splits)

lemma analyze_signatures:
  assumes "sigs = snd (build_signatures xxh64 fs all_files (all_file_hashes_of fhm, []))"
  shows "signature_of sigs folder = content_signature xxh64 fs fhm all_files folder"
    and "folder \<in> fst ` set sigs \<longleftrightarrow> content_signature xxh64 fs fhm all_files folder \<noteq> {}"
proof -
  obtain known' where run:
    "build_signatures xxh64 fs all_files (all_file_hashes_of fhm, []) = (known', sigs)"
    using assms by (metis prod.collapse)
  have fh: "file_hash_of xxh64 fs fhm = hash_from xxh64 fs (all_file_hashes_of fhm)"
    by (rule ext) (simp add: file_hash_of_def)
  from build_signatures_result [OF run, of folder]
  show eq: "signature_of sigs folder = content_signature xxh64 fs fhm all_files folder"
    by (simp add: content_signature_def fh signature_of_Nil)
  from build_signatures_keyed [OF run keyed_Nil] have "keyed sigs" .
  then have "folder \<in> fst ` set sigs \<longleftrightarrow> signature_of sigs folder \<noteq> {}"
    by (simp add: keyed_def)
  with eq show "folder \<in> fst ` set sigs \<longleftrightarrow> content_signature xxh64 fs fhm all_files folder \<noteq> {}"
    by simp
qed

lemma analyze_relationships:
  assumes "sigs = snd (build_signatures xxh64 fs all_files (all_file_hashes_of fhm, []))"
  shows "r \<in> set (fst (analyze_folder_duplicates xxh64 fs all_files fhm)) \<longleftrightarrow>
         (\<exists>pair \<in> set (combinations2 (map fst sigs)). r \<in> set (compare_folders sigs pair))"
  using assms by (simp add: analyze_folder_duplicates_def Let_def)

text \<open>
  Claim C7. For two distinct folders with non-empty content signatures, the analysis
  emits an \<open>Exact_Duplicate\<close> relationship for the pair exactly when the signatures are
  equal, and \<open>Subset X Y\<close> exactly when the signature of \<open>X\<close> is a strict subset of that
  of \<open>Y\<close>; a folder without a hashed file appears in no relationship.
\<close>

theorem folder_relationships:
  "(X \<noteq> Y \<and> content_signature xxh64 fs fhm all_files X \<noteq> {} \<and>
      content_signature xxh64 fs fhm all_files Y \<noteq> {} \<longrightarrow>
     ((Exact_Duplicate X Y \<in> set (fst (analyze_folder_duplicates xxh64 fs all_files fhm)) \<or>
       Exact_Duplicate Y X \<in> set (fst (analyze_folder_duplicates xxh64 fs all_files fhm))) \<longleftrightarrow>
      content_signature xxh64 fs fhm all_files X = content_signature xxh64 fs fhm all_files Y) \<and>
     (Subset X Y \<in> set (fst (analyze_folder_duplicates xxh64 fs all_files fhm)) \<longleftrightarrow>
      content_signature xxh64 fs fhm all_files X \<subset> content_signature xxh64 fs fhm all_files Y)) \<and>
   (\<forall>r \<in> set (fst (analyze_folder_duplicates xxh64 fs all_files fhm)).
      \<forall>Z \<in> folders_of r. content_signature xxh64 fs fhm all_files Z \<noteq> {})"
proof -
  define sigs where "sigs = snd (build_signatures xxh64 fs all_files (all_file_hashes_of fhm, []))"
  define rels where "rels = fst (analyze_folder_duplicates xxh64 fs all_files fhm)"
  define cs where "cs = content_signature xxh64 fs fhm all_files"
  have sg: "\<And>folder. signature_of sigs folder = cs folder"
    unfolding cs_def using analyze_signatures(1) [OF sigs_def] .
  have ky: "\<And>folder. folder \<in> fst ` set sigs \<longleftrightarrow> cs folder \<noteq> {}"
    unfolding cs_def using analyze_signatures(2) [OF sigs_def] .
  have mem: "\<And>r. r \<in> set rels \<longleftrightarrow>
      (\<exists>pair \<in> set (combinations2 (map fst sigs)). r \<in> set (compare_folders sigs pair))"
    unfolding rels_def using analyze_relationships [OF sigs_def] .
  have part3: "\<forall>r \<in> set rels. \<forall>Z \<in> folders_of r. cs Z \<noteq> {}"
  proof (intro ballI)
    fix r Z assume "r \<in> set rels" "Z \<in> folders_of r"
    then obtain pair where "r \<in> set (compare_folders sigs pair)" using mem by blast
    from compare_folders_mentions [OF this \<open>Z \<in> folders_of r\<close>] sg show "cs Z \<noteq> {}" by simp
  qed
  have part12: "((Exact_Duplicate X Y \<in> set rels \<or> Exact_Duplicate Y X \<in> set rels) \<longleftrightarrow> cs X = cs Y) \<and>
     (Subset X Y \<in> set rels \<longleftrightarrow> cs X \<subset> cs Y)"
    if ne: "X \<noteq> Y" and nx: "cs X \<noteq> {}" and ny: "cs Y \<noteq> {}"
  proof -
    from nx ny ky have "X \<in> set (map fst sigs)" "Y \<in> set (map fst sigs)" by simp_all
    from combinations2_covers [OF this ne]
    have cov: "(X, Y) \<in> set (combinations2 (map fst sigs)) \<or>
               (Y, X) \<in> set (combinations2 (map fst sigs))" .
    have e1: "Exact_Duplicate X Y \<in> set rels \<Longrightarrow> cs X = cs Y"
      using mem compare_folders_Exact sg by metis
    have e2: "Exact_Duplicate Y X \<in> set rels \<Longrightarrow> cs X = cs Y"
      using mem compare_folders_Exact sg by metis
    have e3: "Exact_Duplicate X Y \<in> set rels \<or> Exact_Duplicate Y X \<in> set rels" if eq: "cs X = cs Y"
    proof -
      from cov show ?thesis
      proof
        assume c: "(X, Y) \<in> set (combinations2 (map fst sigs))"
        have "Exact_Duplicate X Y \<in> set (compare_folders sigs (X, Y))"
          using eq nx ny by (simp add: compare_folders_Exact sg)
        with c mem show ?thesis by blast
      next
        assume c: "(Y, X) \<in> set (combinations2 (map fst sigs))"
        have "Exact_Duplicate Y X \<in> set (compare_folders sigs (Y, X))"
          using eq nx ny by (simp add: compare_folders_Exact sg)
        with c mem show ?thesis by blast
      qed
    qed
    have s1: "Subset X Y \<in> set rels \<Longrightarrow> cs X \<subset> cs Y"
      using mem compare_folders_Subset sg by metis
    have s2: "Subset X Y \<in> set rels" if st: "cs X \<subset> cs Y"
    proof -
      from cov show ?thesis
      proof
        assume c: "(X, Y) \<in> set (combinations2 (map fst sigs))"
        have "Subset X Y \<in> set (compare_folders sigs (X, Y))"
          using st nx ny by (simp add: compare_folders_Subset sg)
        with c mem show ?thesis by blast
      next
        assume c: "(Y, X) \<in> set (combinations2 (map fst sigs))"
        have "Subset X Y \<in> set (compare_folders sigs (Y, X))"
          using st nx ny by (simp add: compare_folders_Subset sg)
        with c mem show ?thesis by blast
      qed
    qed
    from e1 e2 e3 s1 s2 show ?thesis by blast
  qed
  from part12 part3 show ?thesis unfolding rels_def cs_def by blast
qed

theorem folder_relationships_witness:
  "[''t'', ''dir_A''] \<noteq> [''t'', ''dir_B''] \<and>
   content_signature example_xxh64 folder_tree [] folder_tree_files [''t'', ''dir_A''] =
     {''0000000000000141'', ''0000000000000284''} \<and>
   content_signature example_xxh64 folder_tree [] folder_tree_files [''t'', ''dir_B''] =
     {''0000000000000141'', ''0000000000000284'', ''00000000000003c9''} \<and>
   fst (analyze_folder_duplicates example_xxh64 folder_tree folder_tree_files []) =
     [Subset [''t'', ''dir_A''] [''t'', ''dir_B''],
      Exact_Duplicate [''t'', ''dir_A''] [''t'', ''dir_C''],
      Subset [''t'', ''dir_C''] [''t'', ''dir_B'']] \<and>
   content_signature example_xxh64 folder_tree [] folder_tree_files [''t'', ''dir_A''] \<subset>
   content_signature example_xxh64 folder_tree [] folder_tree_files [''t'', ''dir_B'']"
proof -
  have d: "[''t'', ''dir_A''] \<noteq> [''t'', ''dir_B'']" by simp
  have a: "content_signature example_xxh64 folder_tree [] folder_tree_files [''t'', ''dir_A''] =
     {''0000000000000141'', ''0000000000000284''}" by code_simp
  have b: "content_signature example_xxh64 folder_tree [] folder_tree_files [''t'', ''dir_B''] =
     {''0000000000000141'', ''0000000000000284'', ''00000000000003c9''}" by code_simp
  have r: "fst (analyze_folder_duplicates example_xxh64 folder_tree folder_tree_files []) =
     [Subset [''t'', ''dir_A''] [''t'', ''dir_B''],
      Exact_Duplicate [''t'', ''dir_A''] [''t'', ''dir_C''],
      Subset [''t'', ''dir_C''] [''t'', ''dir_B'']]" by code_simp
  have na: "content_signature example_xxh64 folder_tree [] folder_tree_files [''t'', ''dir_A''] \<noteq> {}"
    unfolding a by simp
  have nb: "content_signature example_xxh64 folder_tree [] folder_tree_files [''t'', ''dir_B''] \<noteq> {}"
    unfolding b by simp
  have "Subset [''t'', ''dir_A''] [''t'', ''dir_B''] \<in>
        set (fst (analyze_folder_duplicates example_xxh64 folder_tree folder_tree_files []))"
    unfolding r by simp
  with folder_relationships [of "[''t'', ''dir_A'']" "[''t'', ''dir_B'']" example_xxh64 folder_tree "[]"
      folder_tree_files] d na nb
  have "content_signature example_xxh64 folder_tree [] folder_tree_files [''t'', ''dir_A''] \<subset>
        content_signature example_xxh64 folder_tree [] folder_tree_files [''t'', ''dir_B'']"
    by blast
  with d a b r show ?thesis by blast
qed

section \<open>Facts about the score\<close>

lemma re_search_copy_paren_intro: "re_search_copy (pre @ ustr ''(copy)'' @ post)"
  by (induction pre) (simp_all add: ustr_def)

lemma re_search_copy_sep_intro:
  "c \<in> set (ustr ''-_ '') \<Longrightarrow> re_search_copy (pre @ c # ustr ''copy'' @ post)"
  by (induction pre) simp_all

lemma re_search_copy_elim: "re_search_copy s \<Longrightarrow> copy_indicator s"
proof (induction s)
  case Nil
  then show ?case by simp
next
  case (Cons c cs)
  from Cons.prems consider
    (a) "prefix (ustr ''(copy)'') (c # cs)" |
    (b) "c \<in> set (ustr ''-_ '')" "prefix (ustr ''copy'') cs" |
    (r) "re_search_copy cs"
    by auto
  then show ?case
  proof cases
    case a
    then obtain post where "c # cs = ustr ''(copy)'' @ post" by (auto simp: prefix_def)
    then have "c # cs = [] @ ustr ''(copy)'' @ post" by simp
    then show ?thesis unfolding copy_indicator_def by blast
  next
    case b
    from b(2) obtain post where "cs = ustr ''copy'' @ post" by (auto simp: prefix_def)
    then have "c # cs = [] @ c # ustr ''copy'' @ post" by simp
    with b(1) show ?thesis unfolding copy_indicator_def by blast
  next
    case r
    from Cons.IH [OF r] show ?thesis
      unfolding copy_indicator_def
    proof (elim disjE exE conjE)
      fix pre post assume "cs = pre @ ustr ''(copy)'' @ post"
      then have "c # cs = (c # pre) @ ustr ''(copy)'' @ post" by simp
      then show "(\<exists>pre post. c # cs = pre @ ustr ''(copy)'' @ post) \<or>
        (\<exists>pre ca post. ca \<in> set (ustr ''-_ '') \<and> c # cs = pre @ ca # ustr ''copy'' @ post)"
        by blast
    next
      fix pre d post assume "d \<in> set (ustr ''-_ '')" "cs = pre @ d # ustr ''copy'' @ post"
      then have "d \<in> set (ustr ''-_ '') \<and> c # cs = (c # pre) @ d # ustr ''copy'' @ post"
        by simp
      then show "(\<exists>pre post. c # cs = pre @ ustr ''(copy)'' @ post) \<or>
        (\<exists>pre ca post. ca \<in> set (ustr ''-_ '') \<and> c # cs = pre @ ca # ustr ''copy'' @ post)"
        by blast
    qed
  qed
qed

lemma re_search_copy_iff: "re_search_copy s = copy_indicator s"
proof
  assume "re_search_copy s"
  then show "copy_indicator s" by (rule re_search_copy_elim)
next
  assume "copy_indicator s"
  then show "re_search_copy s"
    unfolding copy_indicator_def
    using re_search_copy_paren_intro re_search_copy_sep_intro by blast
qed

lemma paren_not_digit: "\<not> is_digit (of_char CHR '')'')"
  by code_simp

lemma re_search_paren_digits_intro:
  assumes "ds \<noteq> []" and "\<forall>d \<in> set ds. is_digit d"
  shows "re_search_paren_digits (pre @ ustr ''('' @ ds @ ustr '')'' @ post)"
proof (induction pre)
  case Nil
  have tw: "takeWhile is_digit (ds @ of_char CHR '')'' # post) = ds"
    using assms(2) paren_not_digit by (simp add: takeWhile_append2)
  have dw: "dropWhile is_digit (ds @ of_char CHR '')'' # post) = of_char CHR '')'' # post"
    using assms(2) paren_not_digit by (simp add: dropWhile_append2)
  have "re_search_paren_digits (of_char CHR ''('' # ds @ of_char CHR '')'' # post)"
    using assms(1) by (simp only: re_search_paren_digits.simps tw dw) simp
  then show ?case by (simp add: ustr_def)
next
  case (Cons a pre)
  then show ?case by simp
qed

lemma re_search_paren_digits_elim: "re_search_paren_digits s \<Longrightarrow> paren_number s"
proof (induction s)
  case Nil
  then show ?case by simp
next
  case (Cons c cs)
  from Cons.prems consider
    (h) "c = of_char CHR ''(''" "takeWhile is_digit cs \<noteq> []"
        "\<exists>r. dropWhile is_digit cs = of_char CHR '')'' # r" |
    (r) "re_search_paren_digits cs"
    by (auto split: list.splits)
  then show ?case
  proof cases
    case h
    from h(3) obtain r where r: "dropWhile is_digit cs = of_char CHR '')'' # r" by blast
    have "cs = takeWhile is_digit cs @ dropWhile is_digit cs" by simp
    with r have "cs = takeWhile is_digit cs @ ustr '')'' @ r" by (simp add: ustr_def)
    with h(1) have "c # cs = [] @ ustr ''('' @ takeWhile is_digit cs @ ustr '')'' @ r"
      by (simp add: ustr_def)
    moreover have "\<forall>d \<in> set (takeWhile is_digit cs). is_digit d"
      by (auto dest: set_takeWhileD)
    ultimately show ?thesis using h(2) unfolding paren_number_def by blast
  next
    case r
    from Cons.IH [OF r] obtain pre ds post where
      "ds \<noteq> []" "\<forall>d \<in> set ds. is_digit d" "cs = pre @ ustr ''('' @ ds @ ustr '')'' @ post"
      unfolding paren_number_def by blast
    then have "ds \<noteq> [] \<and> (\<forall>d \<in> set ds. is_digit d) \<and>
               c # cs = (c # pre) @ ustr ''('' @ ds @ ustr '')'' @ post"
      by simp
    then show ?thesis unfolding paren_number_def by blast
  qed
qed

lemma re_search_paren_digits_iff: "re_search_paren_digits s = paren_number s"
proof
  assume "re_search_paren_digits s"
  then show "paren_number s" by (rule re_search_paren_digits_elim)
next
  assume "paren_number s"
  then show "re_search_paren_digits s"
    unfolding paren_number_def using re_search_paren_digits_intro by blast
qed

text \<open>
  Claim C9, as the code has it. The score is 10 when the lower-cased file name holds
  \<^verbatim>\<open>(copy)\<close>, or \<^verbatim>\<open>copy\<close> right after a hyphen, an underscore or a space (anywhere in the
  name; a bare \<^verbatim>\<open>copy\<close> is no indicator), plus 5 when the name holds a parenthesised run
  of one or more decimal digits (of any script), plus the number of path components
  less one.
\<close>

theorem get_filename_score_value:
  "get_filename_score file_path =
     (if copy_indicator (str_lower (utf8_decode (path_name file_path))) then 10 else 0) +
     (if paren_number (str_lower (utf8_decode (path_name file_path))) then 5 else 0) +
     (int (length file_path) - 1)"
  by (simp add: get_filename_score_def Let_def re_search_copy_iff re_search_paren_digits_iff)

theorem get_filename_score_value_witness:
  "copy_indicator (str_lower (utf8_decode (path_name [''r'', ''Report (2)_Copy.txt'']))) \<and>
   paren_number (str_lower (utf8_decode (path_name [''r'', ''Report (2)_Copy.txt'']))) \<and>
   get_filename_score [''r'', ''Report (2)_Copy.txt''] = 16 \<and>
   paren_number (str_lower (utf8_decode (path_name [''d'', ''scan ('' @ [CHR 0xD9, CHR 0xA3] @ '').txt'']))) \<and>
   get_filename_score [''d'', ''scan ('' @ [CHR 0xD9, CHR 0xA3] @ '').txt''] = 6"
proof -
  have c: "copy_indicator (str_lower (utf8_decode (path_name [''r'', ''Report (2)_Copy.txt''])))"
  proof -
    have "re_search_copy (str_lower (utf8_decode (path_name [''r'', ''Report (2)_Copy.txt''])))"
      by code_simp
    then show ?thesis by (simp only: re_search_copy_iff)
  qed
  have p: "paren_number (str_lower (utf8_decode (path_name [''r'', ''Report (2)_Copy.txt''])))"
  proof -
    have "re_search_paren_digits (str_lower (utf8_decode (path_name [''r'', ''Report (2)_Copy.txt''])))"
      by code_simp
    then show ?thesis by (simp only: re_search_paren_digits_iff)
  qed
  have q: "paren_number (str_lower (utf8_decode (path_name
             [''d'', ''scan ('' @ [CHR 0xD9, CHR 0xA3] @ '').txt''])))"
  proof -
    have "re_search_paren_digits (str_lower (utf8_decode (path_name
             [''d'', ''scan ('' @ [CHR 0xD9, CHR 0xA3] @ '').txt''])))"
      by code_simp
    then show ?thesis by (simp only: re_search_paren_digits_iff)
  qed
  have nc: "\<not> copy_indicator (str_lower (utf8_decode (path_name
             [''d'', ''scan ('' @ [CHR 0xD9, CHR 0xA3] @ '').txt''])))"
  proof -
    have "\<not> re_search_copy (str_lower (utf8_decode (path_name
             [''d'', ''scan ('' @ [CHR 0xD9, CHR 0xA3] @ '').txt''])))"
      by code_simp
    then show ?thesis unfolding re_search_copy_iff .
  qed
  have s1: "get_filename_score [''r'', ''Report (2)_Copy.txt''] = 16"
    using get_filename_score_value [of "[''r'', ''Report (2)_Copy.txt'']"] c p by simp
  have s2: "get_filename_score [''d'', ''scan ('' @ [CHR 0xD9, CHR 0xA3] @ '').txt''] = 6"
    using get_filename_score_value [of "[''d'', ''scan ('' @ [CHR 0xD9, CHR 0xA3] @ '').txt'']"] q nc
    by simp
  from c p q s1 s2 show ?thesis by blast
qed

text \<open>
  The file name \<^verbatim>\<open>copy.txt\<close> contains the token \<^verbatim>\<open>copy\<close>, and its score carries no penalty:
  the score of the specification's wording is 10, the score of the code is 0.
\<close>

theorem get_filename_score_counterexample:
  "contains (ustr ''copy'') (str_lower (utf8_decode (path_name [''copy.txt'']))) \<and>
   get_filename_score [''copy.txt''] = 0 \<and>
   Spec_Score 10 5 [''copy.txt''] = 10"
  by code_simp

section \<open>Facts about the cleaner's entry point\<close>

lemma load_global_workbook: "load_global ''workbook'' = Inl NameError"
  by code_simp

text \<open>
  Claim C5 against the code. Whatever the format of the report and whatever the readers
  and the executor would do, a call on an existing report file raises \<^verbatim>\<open>NameError\<close> at the
  sheet resolution, before any task is read: the reference to \<^verbatim>\<open>workbook\<close> is executed on
  every such call.
\<close>

theorem process_report_actions_NameError:
  "is_file fs report_path \<Longrightarrow> process_report_actions fs report_path rest = Inl NameError"
  by (simp add: process_report_actions_def load_global_workbook)

theorem process_report_actions_NameError_witness:
  "is_file (folder_tree\<lparr>is_file := (\<lambda>p. p = [''t'', ''duplicates_report.json''])\<rparr>)
     [''t'', ''duplicates_report.json''] \<and>
   process_report_actions (folder_tree\<lparr>is_file := (\<lambda>p. p = [''t'', ''duplicates_report.json''])\<rparr>)
     [''t'', ''duplicates_report.json''] (Inr (0::nat)) = Inl NameError"
proof -
  have h: "is_file (folder_tree\<lparr>is_file := (\<lambda>p. p = [''t'', ''duplicates_report.json''])\<rparr>)
     [''t'', ''duplicates_report.json'']" by simp
  from process_report_actions_NameError [OF h, of "Inr (0::nat)"] h show ?thesis by simp
qed

end
